theory Spec2Isabelle
  imports Main "HOL-Library.Word"
begin

section \<open>The relations database of libosmium (osmium/relations/relations_database.hpp)\<close>

text \<open>
  The header defines two classes: \<open>RelationsDatabase\<close>, a vector of elements each pairing
  a handle into an \<open>ItemStash\<close> with a counter of members still missing, and
  \<open>RelationHandle\<close>, a pair of a database pointer and a position. Mutation is modelled
  by explicit state passing: every operation takes the database and returns the new one.
  The database pointer of a \<open>RelationHandle\<close> is the database passed along with it.

  Outcomes that are not a normal return are values of \<open>error\<close>:
  \<^item> \<open>AssertionFailed\<close>: an \<open>assert\<close> of the header fires (the header is modelled as
    compiled with assertions enabled, that is without \<open>NDEBUG\<close>);
  \<^item> \<open>UndefinedBehaviour\<close>: an unchecked \<open>m_elements[pos]\<close> with \<open>pos\<close> out of range;
  \<^item> \<open>InvalidHandle\<close>: the stash is asked for, or asked to release, an item it does
    not hold.
\<close>

datatype error = AssertionFailed | UndefinedBehaviour | InvalidHandle

text \<open>\<open>std::size_t\<close> of the member counter: an unsigned 64-bit integer; \<open>++\<close> and \<open>--\<close> wrap.\<close>

type_synonym size_t = "64 word"

subsection \<open>The item stash\<close>

text \<open>
  Modelled from the spec: the Backing Store (\<open>osmium::ItemStash\<close> of
  osmium/storage/item_stash.hpp, included by the header but not among the sources). The
  spec gives it as an append-only allocator of payload slots that issues a stable handle
  per payload, with fetch by handle, release by handle and a validity check on handles,
  a default-constructed handle being invalid. Here a handle is a number, 0 the invalid
  one, and handle \<open>n + 1\<close> names the \<open>n\<close>-th payload ever added; a released payload leaves
  \<open>None\<close> behind, so no handle is ever issued twice.
\<close>

type_synonym handle_type = nat

type_synonym 'r ItemStash = "'r option list"

text \<open>Modelled from the spec: the default-constructed handle \<open>handle_type{}\<close>, which is invalid.\<close>

definition invalid_handle :: handle_type where
  "invalid_handle = 0"

text \<open>Modelled from the spec: \<open>handle.valid()\<close>, the validity check on handles.\<close>

definition valid :: "handle_type \<Rightarrow> bool" where
  "valid h = (h \<noteq> 0)"

text \<open>Modelled from the spec: whether the stash holds a payload under the handle.\<close>

definition holds :: "'r ItemStash \<Rightarrow> handle_type \<Rightarrow> bool" where
  "holds st h = (valid h \<and> h \<le> length st \<and> st ! (h - 1) \<noteq> None)"

text \<open>Modelled from the spec: \<open>add(payload) \<rightarrow> handle\<close>, copies the payload and returns its handle.\<close>

definition add_item :: "'r ItemStash \<Rightarrow> 'r \<Rightarrow> 'r ItemStash \<times> handle_type" where
  "add_item st r = (st @ [Some r], Suc (length st))"

text \<open>Modelled from the spec: \<open>get(handle) \<rightarrow> payload\<close>; the caller guarantees the handle's validity.\<close>

definition get_item :: "'r ItemStash \<Rightarrow> handle_type \<Rightarrow> error + 'r" where
  "get_item st h =
     (if holds st h then (case st ! (h - 1) of Some r \<Rightarrow> Inr r | None \<Rightarrow> Inl InvalidHandle)
      else Inl InvalidHandle)"

text \<open>Modelled from the spec: \<open>remove(handle)\<close>, releases the payload's storage.\<close>

definition remove_item :: "'r ItemStash \<Rightarrow> handle_type \<Rightarrow> error + 'r ItemStash" where
  "remove_item st h = (if holds st h then Inr (st[h - 1 := None]) else Inl InvalidHandle)"

subsection \<open>RelationsDatabase\<close>

text \<open>\<open>struct element { handle_type handle; std::size_t members; }\<close>\<close>

record element =
  handle :: handle_type
  members :: size_t

text \<open>The members \<open>m_stash\<close> and \<open>m_elements\<close> of the class.\<close>

record 'r RelationsDatabase =
  m_stash :: "'r ItemStash"
  m_elements :: "element list"

text \<open>The constructor: the database starts with no elements over the given stash.\<close>

definition new_database :: "'r ItemStash \<Rightarrow> 'r RelationsDatabase" where
  "new_database stash = \<lparr>m_stash = stash, m_elements = []\<rparr>"

text \<open>\<open>RelationHandle\<close>: the position; the database it points to is passed explicitly.\<close>

record RelationHandle =
  m_pos :: nat

text \<open>\<open>std::size_t size() const noexcept\<close>\<close>

definition db_size :: "'r RelationsDatabase \<Rightarrow> nat" where
  "db_size db = length (m_elements db)"

text \<open>\<open>osmium::Relation& get_relation(std::size_t pos)\<close>, with its assertion.\<close>

definition get_relation :: "'r RelationsDatabase \<Rightarrow> nat \<Rightarrow> error + 'r" where
  "get_relation db pos =
     (if pos < length (m_elements db)
      then get_item (m_stash db) (handle (m_elements db ! pos))
      else Inl AssertionFailed)"

text \<open>
  \<open>std::size_t& members(std::size_t pos) noexcept\<close> returns a reference; reading through
  it is \<open>members_read\<close>, assigning through it is \<open>members_write\<close>. The index is unchecked.
\<close>

definition members_read :: "'r RelationsDatabase \<Rightarrow> nat \<Rightarrow> error + size_t" where
  "members_read db pos =
     (if pos < length (m_elements db) then Inr (members (m_elements db ! pos))
      else Inl UndefinedBehaviour)"

definition members_write :: "'r RelationsDatabase \<Rightarrow> nat \<Rightarrow> size_t \<Rightarrow> error + 'r RelationsDatabase" where
  "members_write db pos v =
     (if pos < length (m_elements db)
      then Inr (db\<lparr>m_elements := (m_elements db)[pos := (m_elements db ! pos)\<lparr>members := v\<rparr>]\<rparr>)
      else Inl UndefinedBehaviour)"

text \<open>\<open>void remove(std::size_t pos)\<close>: release the item, then reset the element.\<close>

definition db_remove :: "'r RelationsDatabase \<Rightarrow> nat \<Rightarrow> error + 'r RelationsDatabase" where
  "db_remove db pos =
     (if pos < length (m_elements db)
      then (case remove_item (m_stash db) (handle (m_elements db ! pos)) of
              Inl e \<Rightarrow> Inl e
            | Inr st \<Rightarrow>
                Inr \<lparr>m_stash = st,
                     m_elements = (m_elements db)[pos := \<lparr>handle = invalid_handle, members = 0\<rparr>]\<rparr>)
      else Inl UndefinedBehaviour)"

text \<open>\<open>RelationHandle add(const osmium::Relation& relation)\<close>\<close>

definition add :: "'r RelationsDatabase \<Rightarrow> 'r \<Rightarrow> 'r RelationsDatabase \<times> RelationHandle" where
  "add db relation =
     (let (st, h) = add_item (m_stash db) relation;
          elems = m_elements db @ [\<lparr>handle = h, members = 0\<rparr>]
      in (\<lparr>m_stash = st, m_elements = elems\<rparr>, \<lparr>m_pos = length elems - 1\<rparr>))"

text \<open>\<open>RelationHandle operator[](std::size_t pos) noexcept\<close>, with its assertion.\<close>

definition at_pos :: "'r RelationsDatabase \<Rightarrow> nat \<Rightarrow> error + RelationHandle" where
  "at_pos db pos = (if pos < length (m_elements db) then Inr \<lparr>m_pos = pos\<rparr> else Inl AssertionFailed)"

text \<open>\<open>std::size_t count_relations() const noexcept\<close>: a \<open>count_if\<close> over the elements.\<close>

definition count_relations :: "'r RelationsDatabase \<Rightarrow> nat" where
  "count_relations db = length (filter (\<lambda>elem. valid (handle elem)) (m_elements db))"

subsection \<open>RelationHandle\<close>

text \<open>\<open>void remove()\<close>\<close>

definition handle_remove :: "'r RelationsDatabase \<Rightarrow> RelationHandle \<Rightarrow> error + 'r RelationsDatabase" where
  "handle_remove db h = db_remove db (m_pos h)"

text \<open>\<open>void set_members(std::size_t value) noexcept\<close>\<close>

definition set_members :: "'r RelationsDatabase \<Rightarrow> RelationHandle \<Rightarrow> size_t \<Rightarrow> error + 'r RelationsDatabase" where
  "set_members db h v = members_write db (m_pos h) v"

text \<open>\<open>void increment_members() noexcept\<close>: \<open>++\<close> on a \<open>std::size_t\<close>, which wraps.\<close>

definition increment_members :: "'r RelationsDatabase \<Rightarrow> RelationHandle \<Rightarrow> error + 'r RelationsDatabase" where
  "increment_members db h =
     (case members_read db (m_pos h) of
        Inl e \<Rightarrow> Inl e
      | Inr c \<Rightarrow> members_write db (m_pos h) (c + 1))"

text \<open>\<open>void decrement_members() noexcept\<close>: the assertion, then \<open>--\<close>.\<close>

definition decrement_members :: "'r RelationsDatabase \<Rightarrow> RelationHandle \<Rightarrow> error + 'r RelationsDatabase" where
  "decrement_members db h =
     (case members_read db (m_pos h) of
        Inl e \<Rightarrow> Inl e
      | Inr c \<Rightarrow> if 0 < c then members_write db (m_pos h) (c - 1) else Inl AssertionFailed)"

text \<open>\<open>bool has_all_members() const noexcept\<close>\<close>

definition has_all_members :: "'r RelationsDatabase \<Rightarrow> RelationHandle \<Rightarrow> error + bool" where
  "has_all_members db h =
     (case members_read db (m_pos h) of Inl e \<Rightarrow> Inl e | Inr c \<Rightarrow> Inr (c = 0))"

subsection \<open>Drivers: sequences of calls\<close>

text \<open>\<open>decrement_members\<close> called \<open>k\<close> times in a row on one handle; the first failure ends the run.\<close>

fun decrement_times :: "nat \<Rightarrow> 'r RelationsDatabase \<Rightarrow> RelationHandle \<Rightarrow> error + 'r RelationsDatabase" where
  "decrement_times 0 db h = Inr db"
| "decrement_times (Suc k) db h =
     (case decrement_members db h of Inl e \<Rightarrow> Inl e | Inr db' \<Rightarrow> decrement_times k db' h)"

text \<open>\<open>add\<close> called once for each relation of a list, in order.\<close>

fun add_all :: "'r RelationsDatabase \<Rightarrow> 'r list \<Rightarrow> 'r RelationsDatabase" where
  "add_all db [] = db"
| "add_all db (r # rs) = add_all (fst (add db r)) rs"

text \<open>
  A call of the public interface. A call on a position first obtains the handle with
  \<open>operator[]\<close>, as a user holding a position does.
\<close>

datatype 'r operation =
    Insert 'r
  | SetMembers nat size_t
  | IncrementMembers nat
  | DecrementMembers nat
  | Remove nat

fun apply_operation :: "'r RelationsDatabase \<Rightarrow> 'r operation \<Rightarrow> error + 'r RelationsDatabase" where
  "apply_operation db (Insert r) = Inr (fst (add db r))"
| "apply_operation db (SetMembers p v) =
     (case at_pos db p of Inl e \<Rightarrow> Inl e | Inr h \<Rightarrow> set_members db h v)"
| "apply_operation db (IncrementMembers p) =
     (case at_pos db p of Inl e \<Rightarrow> Inl e | Inr h \<Rightarrow> increment_members db h)"
| "apply_operation db (DecrementMembers p) =
     (case at_pos db p of Inl e \<Rightarrow> Inl e | Inr h \<Rightarrow> decrement_members db h)"
| "apply_operation db (Remove p) =
     (case at_pos db p of Inl e \<Rightarrow> Inl e | Inr h \<Rightarrow> handle_remove db h)"

text \<open>A sequence of calls; a failed call aborts the program, so the run ends there.\<close>

fun run :: "'r RelationsDatabase \<Rightarrow> 'r operation list \<Rightarrow> error + 'r RelationsDatabase" where
  "run db [] = Inr db"
| "run db (x # xs) = (case apply_operation db x of Inl e \<Rightarrow> Inl e | Inr db' \<Rightarrow> run db' xs)"

fun is_insert :: "'r operation \<Rightarrow> bool" where
  "is_insert (Insert r) = True"
| "is_insert _ = False"

fun is_remove :: "'r operation \<Rightarrow> bool" where
  "is_remove (Remove p) = True"
| "is_remove _ = False"

definition count_inserts :: "'r operation list \<Rightarrow> nat" where
  "count_inserts ops = length (filter is_insert ops)"

definition count_removes :: "'r operation list \<Rightarrow> nat" where
  "count_removes ops = length (filter is_remove ops)"

subsection \<open>Iteration\<close>

text \<open>
  \<open>template <typename TFunc> void for_each_relation(TFunc&& func)\<close>. The callback gets a
  handle and, through it, the database; it may also change what it captured. Its state
  is the pair of the database and the captured state \<open>'a\<close>, and it may fail. The loop
  reads \<open>m_elements.size()\<close> and the element's handle afresh in every round, so a
  callback that keeps inserting keeps the loop running: not returning is \<open>None\<close>.
\<close>

partial_function (option) for_each_from ::
  "(RelationHandle \<Rightarrow> 'r RelationsDatabase \<times> 'a \<Rightarrow> error + 'r RelationsDatabase \<times> 'a) \<Rightarrow> nat \<Rightarrow>
   'r RelationsDatabase \<times> 'a \<Rightarrow> (error + 'r RelationsDatabase \<times> 'a) option" where
  "for_each_from func pos s =
     (if pos < length (m_elements (fst s))
      then (if valid (handle (m_elements (fst s) ! pos))
            then (case func \<lparr>m_pos = pos\<rparr> s of
                    Inl e \<Rightarrow> Some (Inl e)
                  | Inr s' \<Rightarrow> for_each_from func (pos + 1) s')
            else for_each_from func (pos + 1) s)
      else Some (Inr s))"

definition for_each_relation ::
  "(RelationHandle \<Rightarrow> 'r RelationsDatabase \<times> 'a \<Rightarrow> error + 'r RelationsDatabase \<times> 'a) \<Rightarrow>
   'r RelationsDatabase \<times> 'a \<Rightarrow> (error + 'r RelationsDatabase \<times> 'a) option" where
  "for_each_relation func s = for_each_from func 0 s"

text \<open>The callback called on the handles of a list of positions, one after the other.\<close>

fun call_each ::
  "(RelationHandle \<Rightarrow> 's \<Rightarrow> error + 's) \<Rightarrow> nat list \<Rightarrow> 's \<Rightarrow> error + 's" where
  "call_each func [] s = Inr s"
| "call_each func (p # ps) s =
     (case func \<lparr>m_pos = p\<rparr> s of Inl e \<Rightarrow> Inl e | Inr s' \<Rightarrow> call_each func ps s')"

text \<open>The positions from \<open>lo\<close> on whose element has a valid handle, in ascending order.\<close>

definition live_from :: "'r RelationsDatabase \<Rightarrow> nat \<Rightarrow> nat list" where
  "live_from db lo = filter (\<lambda>p. valid (handle (m_elements db ! p))) [lo..<db_size db]"

definition live_positions :: "'r RelationsDatabase \<Rightarrow> nat list" where
  "live_positions db = live_from db 0"

text \<open>A callback that notes the position it is called on and removes that relation.\<close>

definition note_and_remove ::
  "RelationHandle \<Rightarrow> 'r RelationsDatabase \<times> nat list \<Rightarrow> error + 'r RelationsDatabase \<times> nat list" where
  "note_and_remove h s =
     (case handle_remove (fst s) h of
        Inl e \<Rightarrow> Inl e
      | Inr db' \<Rightarrow> Inr (db', snd s @ [m_pos h]))"

subsection \<open>Example databases\<close>

text \<open>A database of three relations (payloads 10, 20, 30) of which the middle one was removed.\<close>

definition db_example :: "nat RelationsDatabase" where
  "db_example =
     \<lparr>m_stash = [Some 10, None, Some 30],
      m_elements = [\<lparr>handle = 1, members = 2\<rparr>, \<lparr>handle = 0, members = 0\<rparr>, \<lparr>handle = 3, members = 0\<rparr>]\<rparr>"

text \<open>A database whose only relation has its counter at the largest \<open>std::size_t\<close>.\<close>

definition db_saturated :: "nat RelationsDatabase" where
  "db_saturated = \<lparr>m_stash = [Some 10], m_elements = [\<lparr>handle = 1, members = - 1\<rparr>]\<rparr>"

section \<open>Properties\<close>

subsection \<open>Insertion\<close>

text \<open>
  C1. For every relation and every database, \<open>add\<close> appends exactly one element, whose
  counter is 0, leaves the elements before it as they were, and returns a handle whose
  position is the size of the database before the insertion; \<open>has_all_members\<close> on the
  returned handle is true right after the insertion.
\<close>

theorem add_appends_complete_slot:
  "m_pos (snd (add db r)) = db_size db
   \<and> db_size (fst (add db r)) = Suc (db_size db)
   \<and> take (db_size db) (m_elements (fst (add db r))) = m_elements db
   \<and> members (m_elements (fst (add db r)) ! db_size db) = 0
   \<and> has_all_members (fst (add db r)) (snd (add db r)) = Inr True"
  by (simp add: add_def add_item_def db_size_def has_all_members_def members_read_def)

theorem add_appends_complete_slot_witness:
  "m_pos (snd (add db_example 40)) = 3
   \<and> db_size (fst (add db_example 40)) = 4
   \<and> m_elements (fst (add db_example 40)) = m_elements db_example @ [\<lparr>handle = 4, members = 0\<rparr>]
   \<and> has_all_members (fst (add db_example 40)) (snd (add db_example 40)) = Inr True"
  using add_appends_complete_slot [of db_example 40]
  by (simp add: add_def add_item_def db_size_def db_example_def)

subsection \<open>The member counter\<close>

lemma members_read_in_range:
  "pos < db_size db \<Longrightarrow> members_read db pos = Inr (members (m_elements db ! pos))"
  by (simp add: members_read_def db_size_def)

lemma members_write_in_range:
  "pos < db_size db \<Longrightarrow>
   members_write db pos v =
     Inr (db\<lparr>m_elements := (m_elements db)[pos := (m_elements db ! pos)\<lparr>members := v\<rparr>]\<rparr>)"
  by (simp add: members_write_def db_size_def)

lemma members_write_size:
  "members_write db pos v = Inr db' \<Longrightarrow> db_size db' = db_size db"
  by (auto simp: members_write_def db_size_def split: if_splits)

lemma members_write_read:
  "members_write db pos v = Inr db' \<Longrightarrow> members_read db' pos = Inr v"
  by (auto simp: members_write_def members_read_def split: if_splits)

lemma decrement_members_step:
  assumes "m_pos h < db_size db" and "members_read db (m_pos h) = Inr c" and "c \<noteq> 0"
  shows "\<exists>db'. decrement_members db h = Inr db' \<and> db_size db' = db_size db
           \<and> members_read db' (m_pos h) = Inr (c - 1)"
  using assms
  by (simp add: decrement_members_def members_write_def members_read_def db_size_def word_gt_0)

lemma decrement_members_at_zero:
  "members_read db (m_pos h) = Inr 0 \<Longrightarrow> decrement_members db h = Inl AssertionFailed"
  by (simp add: decrement_members_def)

lemma decrement_times_counts_down:
  "m_pos h < db_size db \<Longrightarrow> members_read db (m_pos h) = Inr c \<Longrightarrow> k \<le> unat c \<Longrightarrow>
   \<exists>db'. decrement_times k db h = Inr db' \<and> db_size db' = db_size db
     \<and> (\<exists>c'. members_read db' (m_pos h) = Inr c' \<and> unat c' = unat c - k)"
proof (induction k arbitrary: db c)
  case 0
  then show ?case by simp
next
  case (Suc k)
  from Suc.prems(3) have nz: "c \<noteq> 0" by (auto simp: unat_eq_zero)
  from decrement_members_step [OF Suc.prems(1,2) nz]
  obtain db1 where d: "decrement_members db h = Inr db1" and s: "db_size db1 = db_size db"
    and r: "members_read db1 (m_pos h) = Inr (c - 1)" by blast
  have u: "unat (c - 1) = unat c - 1" using nz by (rule unat_minus_one)
  have "k \<le> unat (c - 1)" using Suc.prems(3) u by simp
  with Suc.IH [of db1 "c - 1"] Suc.prems(1) s r
  obtain db' c' where "decrement_times k db1 h = Inr db'" "db_size db' = db_size db1"
    "members_read db' (m_pos h) = Inr c'" "unat c' = unat (c - 1) - k" by auto
  with d s u show ?case by auto
qed

lemma decrement_times_one_too_many:
  "m_pos h < db_size db \<Longrightarrow> members_read db (m_pos h) = Inr c \<Longrightarrow> unat c = k \<Longrightarrow>
   decrement_times (Suc k) db h = Inl AssertionFailed"
proof (induction k arbitrary: db c)
  case 0
  then have "c = 0" by (simp add: unat_eq_zero)
  with 0 show ?case by (simp add: decrement_members_at_zero)
next
  case (Suc k)
  from Suc.prems(3) have nz: "c \<noteq> 0" by (auto simp: unat_eq_zero)
  from decrement_members_step [OF Suc.prems(1,2) nz]
  obtain db1 where d: "decrement_members db h = Inr db1" and s: "db_size db1 = db_size db"
    and r: "members_read db1 (m_pos h) = Inr (c - 1)" by blast
  have "unat (c - 1) = k" using nz Suc.prems(3) by (simp add: unat_minus_one)
  with Suc.IH [of db1 "c - 1"] Suc.prems(1) s r
  have "decrement_times (Suc k) db1 h = Inl AssertionFailed" by simp
  with d show ?case by simp
qed

text \<open>
  C2. On a handle of the database (position below \<open>size()\<close>), \<open>set_members n\<close> returns,
  and from the database it leaves: \<open>k\<close> calls of \<open>decrement_members\<close> all return for every
  \<open>k\<close> up to \<open>n\<close>, \<open>has_all_members\<close> after them is true exactly when \<open>k = n\<close> (so it is
  false after each of the first \<open>n - 1\<close> calls and before the first, unless \<open>n = 0\<close>), and
  the call number \<open>n + 1\<close> fails its assertion.
\<close>

theorem countdown:
  assumes "m_pos h < db_size db"
  shows "\<exists>db0. set_members db h n = Inr db0
     \<and> (\<forall>k \<le> unat n. \<exists>dbk. decrement_times k db0 h = Inr dbk
            \<and> has_all_members dbk h = Inr (k = unat n))
     \<and> decrement_times (Suc (unat n)) db0 h = Inl AssertionFailed"
proof -
  from assms obtain db0 where w: "set_members db h n = Inr db0"
    by (auto simp: set_members_def members_write_in_range)
  then have sz: "m_pos h < db_size db0" and rd: "members_read db0 (m_pos h) = Inr n"
    using assms by (auto simp: set_members_def dest: members_write_size members_write_read)
  have steps: "\<exists>dbk. decrement_times k db0 h = Inr dbk
        \<and> has_all_members dbk h = Inr (k = unat n)
        \<and> (k = unat n \<longrightarrow> decrement_members dbk h = Inl AssertionFailed)" if "k \<le> unat n" for k
  proof -
    from decrement_times_counts_down [OF sz rd that]
    obtain dbk c' where t: "decrement_times k db0 h = Inr dbk"
      and r: "members_read dbk (m_pos h) = Inr c'" and u: "unat c' = unat n - k" by blast
    have "(c' = 0) = (k = unat n)" using u that by (auto simp: unat_eq_zero [symmetric])
    with t r show ?thesis
      by (auto simp: has_all_members_def decrement_members_at_zero)
  qed
  have last: "decrement_times (Suc (unat n)) db0 h = Inl AssertionFailed"
    using sz rd by (rule decrement_times_one_too_many) simp
  from w steps last show ?thesis by blast
qed


theorem countdown_witness:
  "m_pos \<lparr>m_pos = 0\<rparr> < db_size db_example
   \<and> (\<exists>db0. set_members db_example \<lparr>m_pos = 0\<rparr> 2 = Inr db0
        \<and> has_all_members db0 \<lparr>m_pos = 0\<rparr> = Inr False
        \<and> (\<exists>db1. decrement_times 1 db0 \<lparr>m_pos = 0\<rparr> = Inr db1
              \<and> has_all_members db1 \<lparr>m_pos = 0\<rparr> = Inr False)
        \<and> (\<exists>db2. decrement_times 2 db0 \<lparr>m_pos = 0\<rparr> = Inr db2
              \<and> has_all_members db2 \<lparr>m_pos = 0\<rparr> = Inr True)
        \<and> decrement_times 3 db0 \<lparr>m_pos = 0\<rparr> = Inl AssertionFailed)"
proof -
  have lt: "m_pos \<lparr>m_pos = 0\<rparr> < db_size db_example"
    by (simp add: db_size_def db_example_def)
  have three: "Suc (unat (2 :: size_t)) = 3" by simp
  from countdown [OF lt, of 2]
  obtain db0 where s: "set_members db_example \<lparr>m_pos = 0\<rparr> 2 = Inr db0"
    and a: "\<forall>k \<le> unat (2 :: size_t). \<exists>dbk. decrement_times k db0 \<lparr>m_pos = 0\<rparr> = Inr dbk
              \<and> has_all_members dbk \<lparr>m_pos = 0\<rparr> = Inr (k = unat (2 :: size_t))"
    and f: "decrement_times (Suc (unat (2 :: size_t))) db0 \<lparr>m_pos = 0\<rparr> = Inl AssertionFailed"
    by blast
  from a have a0: "has_all_members db0 \<lparr>m_pos = 0\<rparr> = Inr False"
    by (drule_tac x = 0 in spec) simp
  from a have a1: "\<exists>db1. decrement_times 1 db0 \<lparr>m_pos = 0\<rparr> = Inr db1
              \<and> has_all_members db1 \<lparr>m_pos = 0\<rparr> = Inr False"
    by (drule_tac x = 1 in spec) simp
  from a have a2: "\<exists>db2. decrement_times 2 db0 \<lparr>m_pos = 0\<rparr> = Inr db2
              \<and> has_all_members db2 \<lparr>m_pos = 0\<rparr> = Inr True"
    by (drule_tac x = 2 in spec) simp
  from f have f3: "decrement_times 3 db0 \<lparr>m_pos = 0\<rparr> = Inl AssertionFailed"
    by (simp only: three)
  from lt s a0 a1 a2 f3 show ?thesis by blast
qed

text \<open>
  C3. \<open>decrement_members\<close> on an element whose counter is 0 (\<open>has_all_members\<close> is true,
  the documented precondition is violated) does not return a database with a wrapped
  counter: its assertion fails.
\<close>

theorem decrement_at_zero_fails:
  assumes "m_pos h < db_size db" and "has_all_members db h = Inr True"
  shows "decrement_members db h = Inl AssertionFailed"
  using assms
  by (simp add: has_all_members_def decrement_members_def members_read_def db_size_def)

theorem decrement_at_zero_fails_witness:
  "m_pos \<lparr>m_pos = 2\<rparr> < db_size db_example
   \<and> has_all_members db_example \<lparr>m_pos = 2\<rparr> = Inr True
   \<and> decrement_members db_example \<lparr>m_pos = 2\<rparr> = Inl AssertionFailed"
proof -
  have lt: "m_pos \<lparr>m_pos = 2\<rparr> < db_size db_example"
    by (simp add: db_size_def db_example_def)
  have z: "has_all_members db_example \<lparr>m_pos = 2\<rparr> = Inr True"
    by (simp add: has_all_members_def members_read_def db_example_def)
  from lt z decrement_at_zero_fails [OF lt z] show ?thesis by simp
qed

text \<open>
  C9, as stated, fails: on a counter at the largest \<open>std::size_t\<close> the increment wraps to
  0, and the decrement that follows fails its assertion instead of restoring the counter.
\<close>

theorem increment_decrement_counterexample:
  "m_pos \<lparr>m_pos = 0\<rparr> < db_size db_saturated
   \<and> increment_members db_saturated \<lparr>m_pos = 0\<rparr>
       = Inr \<lparr>m_stash = [Some 10], m_elements = [\<lparr>handle = 1, members = 0\<rparr>]\<rparr>
   \<and> decrement_members \<lparr>m_stash = [Some 10], m_elements = [\<lparr>handle = 1, members = 0\<rparr>]\<rparr> \<lparr>m_pos = 0\<rparr>
       = Inl AssertionFailed"
  by (simp add: db_saturated_def db_size_def increment_members_def decrement_members_def
      members_read_def members_write_def)

text \<open>
  C9, amended. On a handle of the database whose counter is not the largest
  \<open>std::size_t\<close>, \<open>increment_members\<close> returns a database in which \<open>has_all_members\<close>
  is false, and \<open>decrement_members\<close> on that database returns the database from before
  the two calls: the counter, and with it \<open>has_all_members\<close>, and everything else.
\<close>

theorem increment_then_decrement_restores:
  assumes "m_pos h < db_size db" and "members_read db (m_pos h) = Inr c" and "c \<noteq> - 1"
  shows "\<exists>db1. increment_members db h = Inr db1
           \<and> has_all_members db1 h = Inr False
           \<and> decrement_members db1 h = Inr db"
proof -
  from assms(3) have nz: "c + 1 \<noteq> 0" using max_word_wrap by blast
  from assms(1,2) have c: "members (m_elements db ! m_pos h) = c"
    by (simp add: members_read_def db_size_def)
  let ?db1 = "db\<lparr>m_elements := (m_elements db)[m_pos h := (m_elements db ! m_pos h)\<lparr>members := c + 1\<rparr>]\<rparr>"
  have i: "increment_members db h = Inr ?db1"
    using assms(1,2) by (simp add: increment_members_def members_write_in_range)
  have r: "members_read ?db1 (m_pos h) = Inr (c + 1)"
    using assms(1) by (simp add: members_read_def db_size_def)
  have e: "(m_elements db ! m_pos h)\<lparr>members := c\<rparr> = m_elements db ! m_pos h"
    using c by (cases "m_elements db ! m_pos h") auto
  have "decrement_members ?db1 h = Inr db"
    using assms(1) nz
    by (simp add: decrement_members_def r members_write_def db_size_def word_gt_0 e)
  moreover have "has_all_members ?db1 h = Inr False"
    using nz by (simp add: has_all_members_def r)
  ultimately show ?thesis using i by blast
qed

theorem increment_then_decrement_restores_witness:
  "m_pos \<lparr>m_pos = 0\<rparr> < db_size db_example
   \<and> members_read db_example (m_pos \<lparr>m_pos = 0\<rparr>) = Inr 2
   \<and> (2 :: size_t) \<noteq> - 1
   \<and> (\<exists>db1. increment_members db_example \<lparr>m_pos = 0\<rparr> = Inr db1
         \<and> decrement_members db1 \<lparr>m_pos = 0\<rparr> = Inr db_example)"
proof -
  have lt: "m_pos \<lparr>m_pos = 0\<rparr> < db_size db_example"
    by (simp add: db_size_def db_example_def)
  have rd: "members_read db_example (m_pos \<lparr>m_pos = 0\<rparr>) = Inr 2"
    by (simp add: members_read_def db_example_def)
  have ne: "(2 :: size_t) \<noteq> - 1" by simp
  from increment_then_decrement_restores [OF lt rd ne] lt rd ne show ?thesis by blast
qed

subsection \<open>What the counter operations leave alone\<close>

lemma members_write_frame:
  assumes "members_write db pos v = Inr db'"
  shows "db_size db' = db_size db \<and> m_stash db' = m_stash db
     \<and> handle (m_elements db' ! pos) = handle (m_elements db ! pos)
     \<and> members (m_elements db' ! pos) = v
     \<and> (\<forall>q. q \<noteq> pos \<longrightarrow> m_elements db' ! q = m_elements db ! q)"
  using assms by (auto simp: members_write_def db_size_def split: if_splits)

lemma counter_operation_is_write:
  assumes "set_members db h v = Inr db' \<or> increment_members db h = Inr db'
     \<or> decrement_members db h = Inr db'"
  shows "\<exists>c. members_write db (m_pos h) c = Inr db'"
  using assms
  by (auto simp: set_members_def increment_members_def decrement_members_def
      split: sum.splits if_splits)

text \<open>
  C10. Whichever of \<open>set_members\<close>, \<open>increment_members\<close> and \<open>decrement_members\<close> returns
  on a handle: the size of the database, the stash, the stash handle of the handle's own
  element and every other element (stash handle and counter) are as before; only the
  counter of the handle's own element may differ.
\<close>

theorem counter_operations_frame:
  assumes "set_members db h v = Inr db' \<or> increment_members db h = Inr db'
     \<or> decrement_members db h = Inr db'"
  shows "db_size db' = db_size db \<and> m_stash db' = m_stash db
     \<and> handle (m_elements db' ! m_pos h) = handle (m_elements db ! m_pos h)
     \<and> (\<forall>q. q \<noteq> m_pos h \<longrightarrow> m_elements db' ! q = m_elements db ! q)"
proof -
  from counter_operation_is_write [OF assms]
  obtain c where "members_write db (m_pos h) c = Inr db'" ..
  from members_write_frame [OF this] show ?thesis by blast
qed

theorem counter_operations_frame_witness:
  "\<exists>db'. set_members db_example \<lparr>m_pos = 0\<rparr> 7 = Inr db'
     \<and> db_size db' = db_size db_example
     \<and> m_stash db' = m_stash db_example
     \<and> handle (m_elements db' ! 0) = handle (m_elements db_example ! 0)
     \<and> m_elements db' ! 1 = m_elements db_example ! 1
     \<and> m_elements db' ! 2 = m_elements db_example ! 2"
proof -
  obtain db' where s: "set_members db_example \<lparr>m_pos = 0\<rparr> 7 = Inr db'"
    by (simp add: set_members_def members_write_def db_example_def)
  then have "set_members db_example \<lparr>m_pos = 0\<rparr> 7 = Inr db'
     \<or> increment_members db_example \<lparr>m_pos = 0\<rparr> = Inr db'
     \<or> decrement_members db_example \<lparr>m_pos = 0\<rparr> = Inr db'" by (rule disjI1)
  from counter_operations_frame [OF this]
  have f: "db_size db' = db_size db_example" "m_stash db' = m_stash db_example"
    "handle (m_elements db' ! 0) = handle (m_elements db_example ! 0)"
    "\<forall>q. q \<noteq> 0 \<longrightarrow> m_elements db' ! q = m_elements db_example ! q"
    by simp_all
  from f(4) have "m_elements db' ! 1 = m_elements db_example ! 1"
    "m_elements db' ! 2 = m_elements db_example ! 2" by simp_all
  with s f(1-3) show ?thesis by blast
qed

subsection \<open>Sequences of calls: size and number of relations\<close>

lemma add_size: "db_size (fst (add db r)) = Suc (db_size db)"
  by (simp add: add_def add_item_def db_size_def)

lemma db_remove_size: "db_remove db p = Inr db' \<Longrightarrow> db_size db' = db_size db"
  by (auto simp: db_remove_def db_size_def split: if_splits sum.splits)

lemma apply_operation_size:
  assumes "apply_operation db x = Inr db'"
  shows "db_size db' = db_size db + (if is_insert x then 1 else 0)"
  using assms
  by (cases x)
    (auto simp: add_size set_members_def increment_members_def decrement_members_def
      handle_remove_def split: sum.splits if_splits dest: members_write_size db_remove_size)

lemma run_size:
  "run db ops = Inr db' \<Longrightarrow> db_size db' = db_size db + count_inserts ops"
proof (induction ops arbitrary: db)
  case Nil
  then show ?case by (simp add: count_inserts_def)
next
  case (Cons x xs)
  then obtain db1 where a: "apply_operation db x = Inr db1" and r: "run db1 xs = Inr db'"
    by (auto split: sum.splits)
  from apply_operation_size [OF a] Cons.IH [OF r] show ?case
    by (simp add: count_inserts_def)
qed

lemma run_append:
  "run db (xs @ ys) = (case run db xs of Inl e \<Rightarrow> Inl e | Inr db1 \<Rightarrow> run db1 ys)"
  by (induction xs arbitrary: db) (auto split: sum.splits)

text \<open>
  C4. Start from a fresh database and run any sequence of \<open>add\<close>, \<open>set_members\<close>,
  \<open>increment_members\<close>, \<open>decrement_members\<close> and \<open>remove\<close> calls to its end. After every
  prefix \<open>ops\<close> of the sequence \<open>size()\<close> is the number of \<open>add\<close> calls in \<open>ops\<close>, whatever
  was removed, and it is at most the \<open>size()\<close> after the whole sequence: \<open>size()\<close> never
  decreases.
\<close>

theorem size_counts_inserts:
  assumes "run (new_database stash) (ops @ ops') = Inr db'"
  shows "\<exists>db. run (new_database stash) ops = Inr db
     \<and> db_size db = count_inserts ops
     \<and> db_size db' = count_inserts (ops @ ops')
     \<and> db_size db \<le> db_size db'"
proof -
  from assms obtain db where a: "run (new_database stash) ops = Inr db"
    and b: "run db ops' = Inr db'"
    by (auto simp: run_append split: sum.splits)
  have z: "db_size (new_database stash) = 0" by (simp add: new_database_def db_size_def)
  from run_size [OF a] run_size [OF b] z a show ?thesis
    by (simp add: count_inserts_def)
qed

theorem size_counts_inserts_witness:
  "run (new_database []) ([Insert (10::nat), Insert 20, SetMembers 0 2] @ [Remove 1, Insert 30])
     = Inr db_example
   \<and> (\<exists>db. run (new_database []) [Insert (10::nat), Insert 20, SetMembers 0 2] = Inr db
        \<and> db_size db = 2 \<and> db_size db_example = 3)"
proof -
  have r: "run (new_database []) ([Insert (10::nat), Insert 20, SetMembers 0 2] @ [Remove 1, Insert 30])
     = Inr db_example"
    by (simp add: new_database_def add_def add_item_def at_pos_def set_members_def
        members_write_def handle_remove_def db_remove_def remove_item_def holds_def valid_def
        invalid_handle_def db_example_def)
  have c: "count_inserts [Insert (10::nat), Insert 20, SetMembers 0 2] = 2"
    "count_inserts ([Insert (10::nat), Insert 20, SetMembers 0 2] @ [Remove 1, Insert 30]) = 3"
    by (simp_all add: count_inserts_def)
  from size_counts_inserts [OF r, unfolded c] r show ?thesis by blast
qed

lemma count_relations_handles:
  "count_relations db = length (filter valid (map handle (m_elements db)))"
  by (simp add: count_relations_def filter_map comp_def)

lemma members_write_count:
  assumes "members_write db pos v = Inr db'"
  shows "count_relations db' = count_relations db"
proof -
  from assms have "map handle (m_elements db') = map handle (m_elements db)"
    by (auto simp: members_write_def map_update list_update_same_conv split: if_splits)
  then show ?thesis by (simp add: count_relations_handles)
qed

lemma filter_update_drop_one:
  assumes "p < length xs" and "P (xs ! p)" and "\<not> P y"
  shows "Suc (length (filter P (xs[p := y]))) = length (filter P xs)"
proof -
  have "xs = take p xs @ xs ! p # drop (Suc p) xs"
    using assms(1) by (rule id_take_nth_drop)
  then have "length (filter P xs)
      = length (filter P (take p xs)) + Suc (length (filter P (drop (Suc p) xs)))"
    using assms(2) by (metis filter.simps(2) filter_append length_Cons length_append)
  moreover have "xs[p := y] = take p xs @ y # drop (Suc p) xs"
    using assms(1) by (rule upd_conv_take_nth_drop)
  then have "length (filter P (xs[p := y]))
      = length (filter P (take p xs)) + length (filter P (drop (Suc p) xs))"
    using assms(3) by simp
  ultimately show ?thesis by simp
qed

lemma db_remove_count:
  assumes "db_remove db p = Inr db'"
  shows "Suc (count_relations db') = count_relations db"
proof -
  from assms have lt: "p < length (m_elements db)"
    and h: "holds (m_stash db) (handle (m_elements db ! p))"
    and e: "m_elements db' = (m_elements db)[p := \<lparr>handle = invalid_handle, members = 0\<rparr>]"
    by (auto simp: db_remove_def remove_item_def split: if_splits sum.splits)
  from h have v: "valid (handle (m_elements db ! p))" by (simp add: holds_def)
  have n: "\<not> valid (handle \<lparr>handle = invalid_handle, members = 0\<rparr>)"
    by (simp add: valid_def invalid_handle_def)
  from filter_update_drop_one [of p "m_elements db" "\<lambda>elem. valid (handle elem)", OF lt v n]
  show ?thesis by (simp add: count_relations_def e)
qed

lemma add_count: "count_relations (fst (add db r)) = Suc (count_relations db)"
  by (simp add: add_def add_item_def count_relations_def valid_def)

lemma apply_operation_count:
  assumes "apply_operation db x = Inr db'"
  shows "count_relations db' + (if is_remove x then 1 else 0)
     = count_relations db + (if is_insert x then 1 else 0)"
  using assms
  by (cases x)
    (auto simp: add_count set_members_def increment_members_def decrement_members_def
      handle_remove_def split: sum.splits if_splits dest: members_write_count db_remove_count)

lemma run_count:
  "run db ops = Inr db' \<Longrightarrow>
   count_relations db' + count_removes ops = count_relations db + count_inserts ops"
proof (induction ops arbitrary: db)
  case Nil
  then show ?case by (simp add: count_inserts_def count_removes_def)
next
  case (Cons x xs)
  then obtain db1 where a: "apply_operation db x = Inr db1" and r: "run db1 xs = Inr db'"
    by (auto split: sum.splits)
  from apply_operation_count [OF a] Cons.IH [OF r] show ?case
    by (auto simp: count_inserts_def count_removes_def split: if_splits)
qed

text \<open>
  C5. After any sequence of calls run from a fresh database to its end,
  \<open>count_relations()\<close> is \<open>size()\<close> minus the number of \<open>remove\<close> calls of the sequence (all
  of them completed), and it is the number of positions whose element has a valid stash
  handle.
\<close>

theorem count_relations_is_size_minus_removes:
  assumes "run (new_database stash) ops = Inr db"
  shows "count_relations db + count_removes ops = db_size db
     \<and> count_relations db = db_size db - count_removes ops
     \<and> count_relations db = card {p. p < db_size db \<and> valid (handle (m_elements db ! p))}"
proof -
  have z: "db_size (new_database stash) = 0" "count_relations (new_database stash) = 0"
    by (simp_all add: new_database_def db_size_def count_relations_def)
  from run_size [OF assms] run_count [OF assms] z
  have "count_relations db + count_removes ops = db_size db" by simp
  moreover have "count_relations db = card {p. p < db_size db \<and> valid (handle (m_elements db ! p))}"
    by (simp add: count_relations_def db_size_def length_filter_conv_card)
  ultimately show ?thesis by simp
qed

theorem count_relations_is_size_minus_removes_witness:
  "run (new_database []) [Insert (10::nat), Insert 20, SetMembers 0 2, Remove 1, Insert 30]
     = Inr db_example
   \<and> count_relations db_example = 2 \<and> db_size db_example = 3
   \<and> count_removes [Insert (10::nat), Insert 20, SetMembers 0 2, Remove 1, Insert 30] = 1"
proof -
  have r: "run (new_database []) [Insert (10::nat), Insert 20, SetMembers 0 2, Remove 1, Insert 30]
     = Inr db_example"
    by (simp add: new_database_def add_def add_item_def at_pos_def set_members_def
        members_write_def handle_remove_def db_remove_def remove_item_def holds_def valid_def
        invalid_handle_def db_example_def)
  have c: "count_removes [Insert (10::nat), Insert 20, SetMembers 0 2, Remove 1, Insert 30] = 1"
    by (simp add: count_removes_def)
  have s: "db_size db_example = 3" by (simp add: db_size_def db_example_def)
  from count_relations_is_size_minus_removes [OF r] r c s show ?thesis by simp
qed

subsection \<open>Removal\<close>

text \<open>
  C6, as stated, fails: position 1 of the example database is below \<open>size()\<close> but was
  removed before, its handle is the invalid one, and the stash refuses to release it;
  \<open>remove\<close> fails and resets nothing.
\<close>

theorem remove_of_removed_slot_counterexample:
  "1 < db_size db_example
   \<and> db_remove db_example 1 = Inl InvalidHandle
   \<and> handle_remove db_example \<lparr>m_pos = 1\<rparr> = Inl InvalidHandle"
  by (simp add: db_size_def db_example_def handle_remove_def db_remove_def remove_item_def
      holds_def valid_def)

text \<open>
  C6, amended. For every position below \<open>size()\<close> whose element's handle names a payload
  the stash still holds (the relation was not removed before), \<open>remove\<close> returns; after
  it the stash no longer holds a payload under that handle, the element at the position is
  \<open>{handle_type{}, 0}\<close>, so its handle is invalid and its counter 0, and \<open>size()\<close> is
  unchanged, so the position is still below it.
\<close>

theorem remove_resets_slot:
  assumes "p < db_size db" and "holds (m_stash db) (handle (m_elements db ! p))"
  shows "\<exists>db'. db_remove db p = Inr db' \<and> handle_remove db \<lparr>m_pos = p\<rparr> = Inr db'
     \<and> m_elements db' ! p = \<lparr>handle = invalid_handle, members = 0\<rparr>
     \<and> \<not> valid (handle (m_elements db' ! p))
     \<and> members (m_elements db' ! p) = 0
     \<and> db_size db' = db_size db \<and> p < db_size db'
     \<and> \<not> holds (m_stash db') (handle (m_elements db ! p))
     \<and> get_item (m_stash db') (handle (m_elements db ! p)) = Inl InvalidHandle"
proof -
  let ?h = "handle (m_elements db ! p)"
  let ?db' = "\<lparr>m_stash = (m_stash db)[?h - 1 := None],
              m_elements = (m_elements db)[p := \<lparr>handle = invalid_handle, members = 0\<rparr>]\<rparr>"
  have r: "db_remove db p = Inr ?db'"
    using assms by (simp add: db_remove_def remove_item_def db_size_def)
  have g: "\<not> holds (m_stash ?db') ?h"
    using assms(2) by (auto simp: holds_def valid_def)
  from r g assms(1) show ?thesis
    by (simp add: handle_remove_def db_size_def valid_def invalid_handle_def get_item_def)
qed

theorem remove_resets_slot_witness:
  "2 < db_size db_example
   \<and> holds (m_stash db_example) (handle (m_elements db_example ! 2))
   \<and> handle_remove db_example \<lparr>m_pos = 2\<rparr>
       = Inr \<lparr>m_stash = [Some 10, None, None],
              m_elements = [\<lparr>handle = 1, members = 2\<rparr>, \<lparr>handle = 0, members = 0\<rparr>,
                            \<lparr>handle = 0, members = 0\<rparr>]\<rparr>"
proof -
  have lt: "2 < db_size db_example" by (simp add: db_size_def db_example_def)
  have h: "holds (m_stash db_example) (handle (m_elements db_example ! 2))"
    by (simp add: holds_def valid_def db_example_def)
  from remove_resets_slot [OF lt h]
  obtain db' where "handle_remove db_example \<lparr>m_pos = 2\<rparr> = Inr db'" by blast
  moreover have "handle_remove db_example \<lparr>m_pos = 2\<rparr>
       = Inr \<lparr>m_stash = [Some 10, None, None],
              m_elements = [\<lparr>handle = 1, members = 2\<rparr>, \<lparr>handle = 0, members = 0\<rparr>,
                            \<lparr>handle = 0, members = 0\<rparr>]\<rparr>"
    by (simp add: handle_remove_def db_remove_def remove_item_def holds_def valid_def
        invalid_handle_def db_example_def)
  ultimately show ?thesis using lt h by simp
qed

subsection \<open>Growth\<close>

lemma add_keeps_elements:
  "p < db_size db \<Longrightarrow> m_elements (fst (add db r)) ! p = m_elements db ! p"
  by (simp add: add_def add_item_def db_size_def nth_append)

lemma add_item_keeps_items:
  "get_item st h = Inr r \<Longrightarrow> get_item (st @ [Some x]) h = Inr r"
  by (auto simp: get_item_def holds_def valid_def nth_append split: if_splits option.splits)

lemma add_keeps_relation:
  assumes "get_relation db p = Inr r"
  shows "get_relation (fst (add db x)) p = Inr r"
proof -
  from assms have lt: "p < length (m_elements db)"
    and g: "get_item (m_stash db) (handle (m_elements db ! p)) = Inr r"
    by (auto simp: get_relation_def split: if_splits)
  from add_item_keeps_items [OF g, of x] lt show ?thesis
    by (simp add: get_relation_def add_def add_item_def nth_append)
qed

lemma add_all_keeps_positions:
  "p < db_size db \<Longrightarrow>
   db_size (add_all db rs) = db_size db + length rs
   \<and> m_elements (add_all db rs) ! p = m_elements db ! p
   \<and> (\<forall>r. get_relation db p = Inr r \<longrightarrow> get_relation (add_all db rs) p = Inr r)"
proof (induction rs arbitrary: db)
  case Nil
  then show ?case by simp
next
  case (Cons x xs)
  let ?db1 = "fst (add db x)"
  have lt: "p < db_size ?db1" using Cons.prems by (simp add: add_size)
  from Cons.IH [OF lt]
  have a: "db_size (add_all ?db1 xs) = db_size ?db1 + length xs"
    and b: "m_elements (add_all ?db1 xs) ! p = m_elements ?db1 ! p"
    and c: "\<forall>r. get_relation ?db1 p = Inr r \<longrightarrow> get_relation (add_all ?db1 xs) p = Inr r"
    by simp_all
  have "db_size (add_all db (x # xs)) = db_size db + length (x # xs)"
    using a by (simp add: add_size)
  moreover have "m_elements (add_all db (x # xs)) ! p = m_elements db ! p"
    using b Cons.prems by (simp add: add_keeps_elements)
  moreover have "\<forall>r. get_relation db p = Inr r \<longrightarrow> get_relation (add_all db (x # xs)) p = Inr r"
    using c by (simp add: add_keeps_relation)
  ultimately show ?case by blast
qed

text \<open>
  C8. For every position below \<open>size()\<close>, after any number of further \<open>add\<close> calls the
  position is still below \<open>size()\<close>, the element at it (stash handle and counter) is the
  same, \<open>operator[]\<close> gives the same handle, and if the position resolved to a relation
  before, it resolves to the same relation after.
\<close>

theorem add_keeps_positions:
  assumes "p < db_size db"
  shows "p < db_size (add_all db rs)
     \<and> db_size (add_all db rs) = db_size db + length rs
     \<and> m_elements (add_all db rs) ! p = m_elements db ! p
     \<and> (\<forall>r. get_relation db p = Inr r \<longrightarrow> get_relation (add_all db rs) p = Inr r)
     \<and> at_pos (add_all db rs) p = at_pos db p"
proof -
  note k = add_all_keeps_positions [OF assms, of rs]
  from k assms have lt: "p < db_size (add_all db rs)" by simp
  with assms have "at_pos (add_all db rs) p = at_pos db p"
    by (simp add: at_pos_def db_size_def)
  with k lt show ?thesis by blast
qed

theorem add_keeps_positions_witness:
  "0 < db_size db_example
   \<and> db_size (add_all db_example [40, 50, 60]) = 6
   \<and> m_elements (add_all db_example [40, 50, 60]) ! 0 = \<lparr>handle = 1, members = 2\<rparr>
   \<and> get_relation db_example 0 = Inr 10
   \<and> get_relation (add_all db_example [40, 50, 60]) 0 = Inr 10"
proof -
  have lt: "0 < db_size db_example" by (simp add: db_size_def db_example_def)
  have g: "get_relation db_example 0 = Inr 10"
    by (simp add: get_relation_def get_item_def holds_def valid_def db_example_def)
  have e: "m_elements db_example ! 0 = \<lparr>handle = 1, members = 2\<rparr>"
    by (simp add: db_example_def)
  have s: "db_size db_example + length [40, 50, 60 :: nat] = 6"
    by (simp add: db_size_def db_example_def)
  from add_keeps_positions [OF lt, of "[40, 50, 60]"] g e s lt show ?thesis
    by simp
qed

subsection \<open>Iteration over the relations\<close>

lemma live_from_beyond: "db_size db \<le> lo \<Longrightarrow> live_from db lo = []"
  by (simp add: live_from_def)

lemma live_from_step:
  "lo < db_size db \<Longrightarrow>
   live_from db lo =
     (if valid (handle (m_elements db ! lo)) then lo # live_from db (Suc lo)
      else live_from db (Suc lo))"
  by (simp add: live_from_def upt_conv_Cons)

lemma live_from_cong:
  assumes "db_size db' = db_size db"
    and "\<forall>q. lo \<le> q \<and> q < db_size db \<longrightarrow>
          valid (handle (m_elements db' ! q)) = valid (handle (m_elements db ! q))"
  shows "live_from db' lo = live_from db lo"
  unfolding live_from_def using assms by (auto intro: filter_cong)

lemma for_each_from_visits_live:
  assumes frame: "\<And>h s s'. func h s = Inr s' \<Longrightarrow>
      db_size (fst s') = db_size (fst s)
      \<and> (\<forall>q. m_pos h < q \<and> q < db_size (fst s) \<longrightarrow>
            valid (handle (m_elements (fst s') ! q)) = valid (handle (m_elements (fst s) ! q)))"
  shows "for_each_from func pos s = Some (call_each func (live_from (fst s) pos) s)"
proof (induction "db_size (fst s) - pos" arbitrary: pos s)
  case 0
  then have ge: "db_size (fst s) \<le> pos" by simp
  then have "for_each_from func pos s = Some (Inr s)"
    by (subst for_each_from.simps) (simp add: db_size_def)
  with ge show ?case by (simp add: live_from_beyond)
next
  case (Suc n)
  then have lt: "pos < db_size (fst s)" by simp
  show ?case
  proof (cases "valid (handle (m_elements (fst s) ! pos))")
    case False
    have "for_each_from func pos s = for_each_from func (pos + 1) s"
      using lt False by (subst for_each_from.simps) (simp add: db_size_def)
    also have "\<dots> = Some (call_each func (live_from (fst s) (Suc pos)) s)"
      using Suc.hyps(1) [of s "pos + 1"] Suc.hyps(2) by simp
    finally show ?thesis using lt False by (simp add: live_from_step)
  next
    case True
    show ?thesis
    proof (cases "func \<lparr>m_pos = pos\<rparr> s")
      case (Inl e)
      have "for_each_from func pos s = Some (Inl e)"
        using lt True Inl by (subst for_each_from.simps) (simp add: db_size_def)
      then show ?thesis using lt True Inl by (simp add: live_from_step)
    next
      case (Inr s')
      from frame [OF Inr] have sz: "db_size (fst s') = db_size (fst s)"
        and v: "\<forall>q. Suc pos \<le> q \<and> q < db_size (fst s) \<longrightarrow>
            valid (handle (m_elements (fst s') ! q)) = valid (handle (m_elements (fst s) ! q))"
        by auto
      have "for_each_from func pos s = for_each_from func (pos + 1) s'"
        using lt True Inr by (subst for_each_from.simps) (simp add: db_size_def)
      also have "\<dots> = Some (call_each func (live_from (fst s') (Suc pos)) s')"
        using Suc.hyps(1) [of s' "pos + 1"] Suc.hyps(2) sz by simp
      also have "live_from (fst s') (Suc pos) = live_from (fst s) (Suc pos)"
        using sz v by (rule live_from_cong)
      finally show ?thesis using lt True Inr by (simp add: live_from_step)
    qed
  qed
qed

text \<open>
  C7. Let the callback, whenever it returns, leave \<open>size()\<close> as it was and leave valid
  exactly the handles that were valid at the positions after the one it was called on (it
  may change counters, and may remove the relation it is called on). Then
  \<open>for_each_relation\<close> returns, and what it does is to call the callback once on each
  position of \<open>live_positions\<close>, in that order, stopping only if a call fails. That list
  is strictly ascending, so without repetition, and holds exactly the positions below
  \<open>size()\<close> whose element has a valid handle; removed positions are not in it.
\<close>

theorem for_each_relation_visits_live:
  assumes "\<forall>h s s'. func h s = Inr s' \<longrightarrow>
      db_size (fst s') = db_size (fst s)
      \<and> (\<forall>q. m_pos h < q \<and> q < db_size (fst s) \<longrightarrow>
            valid (handle (m_elements (fst s') ! q)) = valid (handle (m_elements (fst s) ! q)))"
  shows "for_each_relation func s = Some (call_each func (live_positions (fst s)) s)
     \<and> sorted_wrt (<) (live_positions (fst s))
     \<and> distinct (live_positions (fst s))
     \<and> set (live_positions (fst s))
         = {p. p < db_size (fst s) \<and> valid (handle (m_elements (fst s) ! p))}"
proof -
  have a: "for_each_relation func s = Some (call_each func (live_positions (fst s)) s)"
    unfolding for_each_relation_def live_positions_def
    using assms by (intro for_each_from_visits_live) blast
  have b: "sorted_wrt (<) (live_positions (fst s))"
    by (simp add: live_positions_def live_from_def sorted_wrt_filter)
  have c: "distinct (live_positions (fst s))"
    by (simp add: live_positions_def live_from_def)
  have d: "set (live_positions (fst s))
         = {p. p < db_size (fst s) \<and> valid (handle (m_elements (fst s) ! p))}"
    by (auto simp: live_positions_def live_from_def)
  from a b c d show ?thesis by blast
qed

lemma note_and_remove_frame:
  "\<forall>h s s'. note_and_remove h s = Inr s' \<longrightarrow>
      db_size (fst s') = db_size (fst s)
      \<and> (\<forall>q. m_pos h < q \<and> q < db_size (fst s) \<longrightarrow>
            valid (handle (m_elements (fst s') ! q)) = valid (handle (m_elements (fst s) ! q)))"
  by (auto simp: note_and_remove_def handle_remove_def db_remove_def db_size_def
      split: sum.splits if_splits)

theorem for_each_relation_visits_live_witness:
  "live_positions db_example = [0, 2]
   \<and> for_each_relation note_and_remove (db_example, [])
       = Some (Inr (\<lparr>m_stash = [None, None, None],
                     m_elements = [\<lparr>handle = 0, members = 0\<rparr>, \<lparr>handle = 0, members = 0\<rparr>,
                                   \<lparr>handle = 0, members = 0\<rparr>]\<rparr>, [0, 2]))"
proof -
  have l: "live_positions db_example = [0, 2]"
    by (simp add: live_positions_def live_from_def db_size_def db_example_def valid_def
        upt_conv_Cons)
  from for_each_relation_visits_live [of note_and_remove "(db_example, [])",
      OF note_and_remove_frame]
  have "for_each_relation note_and_remove (db_example, [])
       = Some (call_each note_and_remove [0, 2] (db_example, []))"
    by (simp add: l)
  also have "call_each note_and_remove [0, 2] (db_example, [])
      = Inr (\<lparr>m_stash = [None, None, None],
                     m_elements = [\<lparr>handle = 0, members = 0\<rparr>, \<lparr>handle = 0, members = 0\<rparr>,
                                   \<lparr>handle = 0, members = 0\<rparr>]\<rparr>, [0, 2])"
    by (simp add: note_and_remove_def handle_remove_def db_remove_def remove_item_def holds_def
        valid_def invalid_handle_def db_example_def)
  finally show ?thesis using l by simp
qed

end
